theory Spec2Isabelle
  imports Complex_Main "HOL-Library.Word"
begin

section \<open>The digraph analyser of dust.py\<close>

text \<open>
  The repository is one function, \<open>analyze_digraphs\<close>: it writes a byte sequence as an
  uppercase hex string, counts the overlapping pairs of adjacent hex characters, puts the
  counts into a 16 x 16 matrix (with optional exclusion, threshold and log scaling), draws
  the matrix and returns the matrix together with the counts.

  The model follows the function line by line. Bytes are \<open>8 word\<close>. The matrix has dtype
  float in the source; here its cells are real numbers, so a count is stored exactly and
  \<open>np.log1p\<close> is the real function \<open>ln (1 + x)\<close>: rounding of IEEE doubles is not
  modelled. Every place where the source can raise is a branch returning \<open>Inl\<close>.
\<close>

subsection \<open>Errors\<close>

text \<open>
  All three are Python's ValueError: the one \<open>sliding_window_view\<close> raises when the
  window is longer than the array, the one \<open>str.index\<close> raises when the character is not
  in the string, and the one \<open>max\<close> raises on an array without elements.
\<close>

datatype error = WindowTooLarge | SubstringNotFound | ZeroSizeReduction

subsection \<open>Line 18: the hex string\<close>

type_synonym byte = "8 word"

definition hex_digits :: string where
  "hex_digits = ''0123456789ABCDEF''"

text \<open>The format type \<open>X\<close>: the uppercase hex digits of a number, most significant first.\<close>

function format_X :: "nat \<Rightarrow> string" where
  "format_X n =
     (if n < 16 then [hex_digits ! n] else format_X (n div 16) @ [hex_digits ! (n mod 16)])"
  by pat_completeness auto
termination
  by (relation "measure (\<lambda>n. n)") auto

declare format_X.simps [simp del]

text \<open>The format spec \<open>02X\<close>: the digits, filled with zeros on the left up to width 2.\<close>

definition format_02X :: "nat \<Rightarrow> string" where
  "format_02X n = (let s = format_X n in replicate (2 - length s) (CHR ''0'') @ s)"

definition hex_string_of :: "byte list \<Rightarrow> string" where
  "hex_string_of binary_data = concat (map (\<lambda>b. format_02X (unat b)) binary_data)"

subsection \<open>Lines 21 to 25: the windows and their counts\<close>

type_synonym digraph = "char \<times> char"

fun windows2 :: "'a list \<Rightarrow> ('a \<times> 'a) list" where
  "windows2 (x # y # zs) = (x, y) # windows2 (y # zs)"
| "windows2 [x] = []"
| "windows2 [] = []"

text \<open>
  \<open>sliding_window_view(a, 2)\<close> on a one-dimensional array: numpy raises ValueError
  (window shape cannot be larger than input array shape) when the array has fewer than 2
  elements, and otherwise gives the window at every position.
\<close>

definition sliding_window_view2 :: "'a list \<Rightarrow> error + ('a \<times> 'a) list" where
  "sliding_window_view2 a = (if length a < 2 then Inl WindowTooLarge else Inr (windows2 a))"

text \<open>
  A Counter is a dict, which keeps its keys in the order of first insertion: an association
  list with one entry per key. Counting an element adds 1 to its entry or appends a new one.
\<close>

type_synonym 'a counter = "('a \<times> nat) list"

fun counter_add :: "'a \<Rightarrow> 'a counter \<Rightarrow> 'a counter" where
  "counter_add k [] = [(k, 1)]"
| "counter_add k ((k', n) # kvs) =
     (if k = k' then (k', n + 1) # kvs else (k', n) # counter_add k kvs)"

definition Counter :: "'a list \<Rightarrow> 'a counter" where
  "Counter xs = fold counter_add xs []"

text \<open>Reading a Counter at a key: a key that is missing reads as 0.\<close>

definition counter_get :: "'a counter \<Rightarrow> 'a \<Rightarrow> nat" where
  "counter_get c k = (case map_of c k of None \<Rightarrow> 0 | Some n \<Rightarrow> n)"

definition count_digraphs :: "byte list \<Rightarrow> error + digraph counter" where
  "count_digraphs binary_data =
     (case sliding_window_view2 (hex_string_of binary_data) of
        Inl e \<Rightarrow> Inl e
      | Inr digraphs \<Rightarrow> Inr (Counter digraphs))"

subsection \<open>Lines 28 to 39: the matrix\<close>

type_synonym matrix = "real list list"

definition zeros16 :: matrix where
  "zeros16 = replicate 16 (replicate 16 0)"

text \<open>\<open>s.index(c)\<close>: the first position of \<open>c\<close> in \<open>s\<close>, ValueError when there is none.\<close>

fun str_index :: "string \<Rightarrow> char \<Rightarrow> error + nat" where
  "str_index [] c = Inl SubstringNotFound"
| "str_index (x # xs) c =
     (if x = c then Inr 0
      else case str_index xs c of Inl e \<Rightarrow> Inl e | Inr i \<Rightarrow> Inr (Suc i))"

text \<open>
  The two tests of the loop body. Python's \<open>and\<close> reads its left operand for truth first:
  None and the empty list are false, and so are None and the number 0.
\<close>

definition is_excluded :: "digraph list option \<Rightarrow> digraph \<Rightarrow> bool" where
  "is_excluded exclude_digraphs d =
     (case exclude_digraphs of None \<Rightarrow> False | Some l \<Rightarrow> l \<noteq> [] \<and> d \<in> set l)"

definition below_threshold :: "int option \<Rightarrow> nat \<Rightarrow> bool" where
  "below_threshold min_threshold count =
     (case min_threshold of None \<Rightarrow> False | Some t \<Rightarrow> t \<noteq> 0 \<and> int count < t)"

definition matrix_set :: "matrix \<Rightarrow> nat \<Rightarrow> nat \<Rightarrow> real \<Rightarrow> matrix" where
  "matrix_set m i j v = m[i := (m ! i)[j := v]]"

fun fill_matrix ::
  "digraph list option \<Rightarrow> int option \<Rightarrow> digraph counter \<Rightarrow> matrix \<Rightarrow> error + matrix" where
  "fill_matrix exclude_digraphs min_threshold [] m = Inr m"
| "fill_matrix exclude_digraphs min_threshold (((first, second), count) # rest) m =
     (if is_excluded exclude_digraphs (first, second)
      then fill_matrix exclude_digraphs min_threshold rest m
      else if below_threshold min_threshold count
      then fill_matrix exclude_digraphs min_threshold rest m
      else case str_index hex_digits first of
        Inl e \<Rightarrow> Inl e
      | Inr i \<Rightarrow>
          (case str_index hex_digits second of
             Inl e \<Rightarrow> Inl e
           | Inr j \<Rightarrow>
               fill_matrix exclude_digraphs min_threshold rest (matrix_set m i j (real count))))"

text \<open>Lines 18 to 39 together: the matrix before scaling, and the counts.\<close>

definition prescale_matrix ::
  "byte list \<Rightarrow> digraph list option \<Rightarrow> int option \<Rightarrow> error + (matrix \<times> digraph counter)" where
  "prescale_matrix binary_data exclude_digraphs min_threshold =
     (case count_digraphs binary_data of
        Inl e \<Rightarrow> Inl e
      | Inr digraph_counts \<Rightarrow>
          (case fill_matrix exclude_digraphs min_threshold digraph_counts zeros16 of
             Inl e \<Rightarrow> Inl e
           | Inr m \<Rightarrow> Inr (m, digraph_counts)))"

subsection \<open>Lines 42 to 44: log scaling\<close>

definition matrix_max :: "matrix \<Rightarrow> error + real" where
  "matrix_max m =
     (case concat m of [] \<Rightarrow> Inl ZeroSizeReduction | x # xs \<Rightarrow> Inr (fold max xs x))"

definition log1p :: "real \<Rightarrow> real" where
  "log1p x = ln (1 + x)"

definition apply_log_scale :: "bool \<Rightarrow> matrix \<Rightarrow> error + matrix" where
  "apply_log_scale log_scale m =
     (if log_scale
      then case matrix_max m of
        Inl e \<Rightarrow> Inl e
      | Inr mx \<Rightarrow>
          if mx > 0 then Inr (map (map (\<lambda>v. if v > 0 then log1p v else 0)) m) else Inr m
      else Inr m)"

subsection \<open>Lines 47 to 78: the drawing\<close>

text \<open>
  The drawing changes the plotting library's current figure and nothing else. The figure
  is a record of what the calls were given: the image and its colour ceiling, the label of
  the colour bar, the title, and for every annotated cell its position and whether the
  text is white. The figure size, the colour map, the ticks and the axis labels are
  constants and are left out. The text of an annotation is modelled apart, below
  (\<open>annotation_value\<close>), because it depends on the last bit of a double.
\<close>

record figure =
  im_data :: matrix
  im_vmax :: "real option"
  colorbar_label :: string
  title :: string
  texts :: "(nat \<times> nat \<times> bool) list"

function str_nat :: "nat \<Rightarrow> string" where
  "str_nat n =
     (if n < 10 then [''0123456789'' ! n] else str_nat (n div 10) @ [''0123456789'' ! (n mod 10)])"
  by pat_completeness auto
termination
  by (relation "measure (\<lambda>n. n)") auto

declare str_nat.simps [simp del]

definition str_int :: "int \<Rightarrow> string" where
  "str_int i = (if i < 0 then CHR ''-'' # str_nat (nat (- i)) else str_nat (nat i))"

fun join :: "string \<Rightarrow> string list \<Rightarrow> string" where
  "join sep [] = []"
| "join sep [s] = s"
| "join sep (s # t # ss) = s @ sep @ join sep (t # ss)"

definition make_title :: "bool \<Rightarrow> digraph list option \<Rightarrow> int option \<Rightarrow> string" where
  "make_title log_scale exclude_digraphs min_threshold =
     ''Hexadecimal Digraph Frequency Heatmap'' @ [CHR 0x0A]
     @ (if log_scale then ''(Log Scale) '' else [])
     @ (case exclude_digraphs of
          None \<Rightarrow> []
        | Some l \<Rightarrow>
            if l \<noteq> []
            then ''(Excluding '' @ join '', '' (map (\<lambda>(a, b). [a, b]) l) @ '') ''
            else [])
     @ (case min_threshold of
          None \<Rightarrow> []
        | Some t \<Rightarrow> if t \<noteq> 0 then ''(Min Count: '' @ str_int t @ '')'' else [])"

definition annotations :: "matrix \<Rightarrow> real \<Rightarrow> (nat \<times> nat \<times> bool) list" where
  "annotations m mx =
     concat (map (\<lambda>i. concat (map (\<lambda>j. if m ! i ! j > 0 then [(j, i, m ! i ! j > mx / 2)] else [])
                                   [0 ..< 16]))
                 [0 ..< 16])"

text \<open>
  Lines 74 and 75, the text of an annotation: \<open>int(np.expm1(v))\<close> under log scaling and
  \<open>int(v)\<close> otherwise, printed in decimal. \<open>int\<close> of a float truncates toward zero. The
  result depends on the double that \<open>np.expm1\<close> returns, so here the library function is
  a parameter (a function on the doubles, which are real numbers).
\<close>

definition py_int :: "real \<Rightarrow> int" where
  "py_int x = (if 0 \<le> x then \<lfloor>x\<rfloor> else \<lceil>x\<rceil>)"

definition annotation_value :: "(real \<Rightarrow> real) \<Rightarrow> bool \<Rightarrow> real \<Rightarrow> int" where
  "annotation_value np_expm1 log_scale v = py_int (if log_scale then np_expm1 v else v)"

text \<open>
  The annotation loop reads \<open>matrix.max()\<close> only at a cell that is positive, so a matrix
  without a positive cell is drawn without asking for the maximum.
\<close>

definition has_positive_cell :: "matrix \<Rightarrow> bool" where
  "has_positive_cell m = list_ex (\<lambda>i. list_ex (\<lambda>j. m ! i ! j > 0) [0 ..< 16]) [0 ..< 16]"

definition render ::
  "matrix \<Rightarrow> bool \<Rightarrow> digraph list option \<Rightarrow> real option \<Rightarrow> int option \<Rightarrow> error + figure" where
  "render m log_scale exclude_digraphs vmax min_threshold =
     (let fig = \<lparr>im_data = m, im_vmax = vmax,
                 colorbar_label = (if log_scale then ''Frequency (log scale)'' else ''Frequency''),
                 title = make_title log_scale exclude_digraphs min_threshold,
                 texts = []\<rparr>
      in if has_positive_cell m
         then case matrix_max m of
           Inl e \<Rightarrow> Inl e
         | Inr mx \<Rightarrow> Inr (fig\<lparr>texts := annotations m mx\<rparr>)
         else Inr fig)"

subsection \<open>The whole function\<close>

definition analyze_digraphs ::
  "byte list \<Rightarrow> bool \<Rightarrow> digraph list option \<Rightarrow> real option \<Rightarrow> int option
   \<Rightarrow> error + ((matrix \<times> digraph counter) \<times> figure)" where
  "analyze_digraphs binary_data log_scale exclude_digraphs vmax min_threshold =
     (case prescale_matrix binary_data exclude_digraphs min_threshold of
        Inl e \<Rightarrow> Inl e
      | Inr (m0, digraph_counts) \<Rightarrow>
          (case apply_log_scale log_scale m0 of
             Inl e \<Rightarrow> Inl e
           | Inr m \<Rightarrow>
               (case render m log_scale exclude_digraphs vmax min_threshold of
                  Inl e \<Rightarrow> Inl e
                | Inr fig \<Rightarrow> Inr ((m, digraph_counts), fig))))"

text \<open>What the caller gets back: the drawing is an effect, not part of the value.\<close>

definition returned ::
  "error + (('a \<times> 'b) \<times> figure) \<Rightarrow> error + ('a \<times> 'b)" where
  "returned r = (case r of Inl e \<Rightarrow> Inl e | Inr (v, fig) \<Rightarrow> Inr v)"

subsection \<open>Notions used in the statements\<close>

text \<open>The shape of the matrix, 16 rows of 16 cells, and the sum of all its cells.\<close>

definition dims16 :: "matrix \<Rightarrow> bool" where
  "dims16 m = (length m = 16 \<and> list_all (\<lambda>r. length r = 16) m)"

definition grid_sum :: "matrix \<Rightarrow> real" where
  "grid_sum m = sum_list (concat m)"

section \<open>Properties\<close>

subsection \<open>The hex string and its windows\<close>

lemma length_hex_digits: "length hex_digits = 16"
  by (simp add: hex_digits_def)

lemma distinct_hex_digits: "distinct hex_digits"
  by (simp add: hex_digits_def)

lemma hex_digit_mem: "i < 16 \<Longrightarrow> hex_digits ! i \<in> set hex_digits"
  by (simp add: length_hex_digits)

lemma hex_digits_inj:
  "i < 16 \<Longrightarrow> j < 16 \<Longrightarrow> (hex_digits ! i = hex_digits ! j) = (i = j)"
  using distinct_hex_digits by (simp add: nth_eq_iff_index_eq length_hex_digits)

lemma format_X_digit: "n < 16 \<Longrightarrow> format_X n = [hex_digits ! n]"
  by (simp add: format_X.simps)

lemma format_02X_byte:
  assumes "n < 256"
  shows "format_02X n = [hex_digits ! (n div 16), hex_digits ! (n mod 16)]"
proof (cases "n < 16")
  case True
  then show ?thesis
    by (simp add: format_02X_def format_X_digit hex_digits_def)
next
  case False
  from assms have "n div 16 < 16" by simp
  with False have "format_X n = [hex_digits ! (n div 16), hex_digits ! (n mod 16)]"
    by (subst format_X.simps) (simp add: format_X_digit)
  then show ?thesis by (simp add: format_02X_def)
qed

lemma unat_byte_less: "unat (b :: byte) < 256"
  using unsigned_less [of b, where ?'a = nat] by simp

lemma byte_nibbles: "unat (b :: byte) div 16 < 16" "unat (b :: byte) mod 16 < 16"
  using unat_byte_less [of b] by simp_all

lemma length_hex_string_of: "length (hex_string_of bs) = 2 * length bs"
  by (induction bs) (simp_all add: hex_string_of_def format_02X_byte unat_byte_less)

lemma set_hex_string_of: "set (hex_string_of bs) \<subseteq> set hex_digits"
  by (induction bs)
    (simp_all add: hex_string_of_def format_02X_byte unat_byte_less hex_digit_mem byte_nibbles)

lemma length_windows2: "length (windows2 xs) = length xs - 1"
  by (induction xs rule: windows2.induct) simp_all

lemma set_windows2: "set (windows2 xs) \<subseteq> set xs \<times> set xs"
  by (induction xs rule: windows2.induct) auto

subsection \<open>The Counter\<close>

lemma counter_get_add:
  "counter_get (counter_add k c) k' = counter_get c k' + (if k = k' then 1 else 0)"
  by (induction c) (auto simp: counter_get_def)

lemma keys_counter_add: "set (map fst (counter_add k c)) = insert k (set (map fst c))"
proof (induction c)
  case Nil
  show ?case by simp
next
  case (Cons kv c)
  obtain k' n where kv: "kv = (k', n)" by (cases kv)
  show ?case
  proof (cases "k = k'")
    case True
    then show ?thesis by (simp add: kv)
  next
    case False
    with Cons.IH show ?thesis by (simp add: kv insert_commute)
  qed
qed

lemma distinct_counter_add:
  "distinct (map fst c) \<Longrightarrow> distinct (map fst (counter_add k c))"
proof (induction c)
  case Nil
  then show ?case by simp
next
  case (Cons kv c)
  obtain k' n where kv: "kv = (k', n)" by (cases kv)
  have "k' \<notin> set (map fst (counter_add k c))" if "k \<noteq> k'"
    using Cons.prems that unfolding keys_counter_add by (simp add: kv)
  with Cons show ?case by (simp add: kv)
qed

lemma positive_counter_add:
  "list_all (\<lambda>kv. 0 < snd kv) c \<Longrightarrow> list_all (\<lambda>kv. 0 < snd kv) (counter_add k c)"
  by (induction c) auto

lemma counter_get_fold:
  "counter_get (fold counter_add xs c) k = counter_get c k + count_list xs k"
  by (induction xs arbitrary: c) (simp_all add: counter_get_add)

lemma keys_fold: "set (map fst (fold counter_add xs c)) = set xs \<union> set (map fst c)"
  by (induction xs arbitrary: c) (simp_all add: keys_counter_add del: set_map)

lemma distinct_fold:
  "distinct (map fst c) \<Longrightarrow> distinct (map fst (fold counter_add xs c))"
  by (induction xs arbitrary: c) (simp_all add: distinct_counter_add)

lemma positive_fold:
  "list_all (\<lambda>kv. 0 < snd kv) c \<Longrightarrow> list_all (\<lambda>kv. 0 < snd kv) (fold counter_add xs c)"
  by (induction xs arbitrary: c) (simp_all add: positive_counter_add)

lemma counter_get_Nil: "counter_get [] k = 0"
  by (simp add: counter_get_def)

lemma counter_get_Counter: "counter_get (Counter xs) k = count_list xs k"
  by (simp add: Counter_def counter_get_fold counter_get_Nil)

lemma keys_Counter: "set (map fst (Counter xs)) = set xs"
  by (simp add: Counter_def keys_fold del: set_map)

lemma distinct_Counter: "distinct (map fst (Counter xs))"
  by (simp add: Counter_def distinct_fold)

lemma positive_Counter: "list_all (\<lambda>kv. 0 < snd kv) (Counter xs)"
  by (simp add: Counter_def positive_fold)

subsection \<open>Filling the matrix\<close>

lemma str_index_mem:
  "c \<in> set s \<Longrightarrow> \<exists>i. str_index s c = Inr i \<and> i < length s \<and> s ! i = c"
  by (induction s) auto

lemma dims16_zeros16: "dims16 zeros16"
  by (simp add: dims16_def zeros16_def list_all_iff)

lemma zeros16_nth: "i < 16 \<Longrightarrow> j < 16 \<Longrightarrow> zeros16 ! i ! j = 0"
  by (simp add: zeros16_def)

lemma dims16_row: "dims16 m \<Longrightarrow> i < 16 \<Longrightarrow> length (m ! i) = 16"
  by (simp add: dims16_def list_all_length)

lemma dims16_matrix_set: "dims16 m \<Longrightarrow> p < 16 \<Longrightarrow> dims16 (matrix_set m p q v)"
  by (auto simp: dims16_def matrix_set_def list_all_length nth_list_update)

lemma matrix_set_nth:
  "dims16 m \<Longrightarrow> p < 16 \<Longrightarrow> q < 16 \<Longrightarrow> i < 16 \<Longrightarrow> j < 16 \<Longrightarrow>
   matrix_set m p q v ! i ! j = (if i = p \<and> j = q then v else m ! i ! j)"
  by (auto simp: matrix_set_def nth_list_update dims16_def list_all_length)

lemma str_index_hex:
  assumes "c \<in> set hex_digits"
  obtains p where "str_index hex_digits c = Inr p" "p < 16" "hex_digits ! p = c"
  using str_index_mem [OF assms] by (auto simp: length_hex_digits)

text \<open>The loop of lines 32 to 39, from any matrix of the right shape.\<close>

lemma fill_matrix_cells:
  assumes "distinct (map fst kvs)"
    and "set (map fst kvs) \<subseteq> set hex_digits \<times> set hex_digits"
    and "dims16 m"
  shows "\<exists>m'. fill_matrix ex thr kvs m = Inr m' \<and> dims16 m' \<and>
           (\<forall>i<16. \<forall>j<16. m' ! i ! j =
              (case map_of kvs (hex_digits ! i, hex_digits ! j) of
                 None \<Rightarrow> m ! i ! j
               | Some n \<Rightarrow>
                   if is_excluded ex (hex_digits ! i, hex_digits ! j) \<or> below_threshold thr n
                   then m ! i ! j else real n))"
  using assms
proof (induction kvs arbitrary: m)
  case Nil
  then show ?case by simp
next
  case (Cons kv kvs)
  obtain a b n where kv: "kv = ((a, b), n)" by (cases kv) auto
  have fresh: "map_of kvs (a, b) = None"
    using Cons.prems(1) by (simp add: kv map_of_eq_None_iff)
  have dist: "distinct (map fst kvs)"
    using Cons.prems(1) by simp
  have hexs: "set (map fst kvs) \<subseteq> set hex_digits \<times> set hex_digits"
    using Cons.prems(2) by simp
  have ab: "a \<in> set hex_digits" "b \<in> set hex_digits"
    using Cons.prems(2) by (simp_all add: kv)
  obtain p where p: "str_index hex_digits a = Inr p" "p < 16" "hex_digits ! p = a"
    using ab(1) by (rule str_index_hex)
  obtain q where q: "str_index hex_digits b = Inr q" "q < 16" "hex_digits ! q = b"
    using ab(2) by (rule str_index_hex)
  have key: "((hex_digits ! i, hex_digits ! j) = (a, b)) = (i = p \<and> j = q)"
    if "i < 16" "j < 16" for i j
    using that p q hex_digits_inj by auto
  show ?case
  proof (cases "is_excluded ex (a, b) \<or> below_threshold thr n")
    case True
    from Cons.IH [OF dist hexs Cons.prems(3)]
    obtain m' where m': "fill_matrix ex thr kvs m = Inr m'" "dims16 m'"
      and cells: "\<And>i j. i < 16 \<Longrightarrow> j < 16 \<Longrightarrow> m' ! i ! j =
              (case map_of kvs (hex_digits ! i, hex_digits ! j) of
                 None \<Rightarrow> m ! i ! j
               | Some n \<Rightarrow>
                   if is_excluded ex (hex_digits ! i, hex_digits ! j) \<or> below_threshold thr n
                   then m ! i ! j else real n)"
      by blast
    have run: "fill_matrix ex thr (kv # kvs) m = Inr m'"
      using True m'(1) by (auto simp: kv)
    have "m' ! i ! j =
              (case map_of (kv # kvs) (hex_digits ! i, hex_digits ! j) of
                 None \<Rightarrow> m ! i ! j
               | Some n \<Rightarrow>
                   if is_excluded ex (hex_digits ! i, hex_digits ! j) \<or> below_threshold thr n
                   then m ! i ! j else real n)" if ij: "i < 16" "j < 16" for i j
    proof (cases "i = p \<and> j = q")
      case True
      with cells [OF ij] fresh p q \<open>is_excluded ex (a, b) \<or> below_threshold thr n\<close>
      show ?thesis by (auto simp: kv)
    next
      case False
      with key [OF ij] have "(hex_digits ! i, hex_digits ! j) \<noteq> (a, b)" by simp
      then have "map_of (kv # kvs) (hex_digits ! i, hex_digits ! j) =
          map_of kvs (hex_digits ! i, hex_digits ! j)"
        by (auto simp: kv)
      with cells [OF ij] show ?thesis by (simp only:)
    qed
    with run m'(2) show ?thesis by blast
  next
    case False
    let ?m2 = "matrix_set m p q (real n)"
    have d2: "dims16 ?m2"
      using Cons.prems(3) p(2) by (rule dims16_matrix_set)
    from Cons.IH [OF dist hexs d2]
    obtain m' where m': "fill_matrix ex thr kvs ?m2 = Inr m'" "dims16 m'"
      and cells: "\<And>i j. i < 16 \<Longrightarrow> j < 16 \<Longrightarrow> m' ! i ! j =
              (case map_of kvs (hex_digits ! i, hex_digits ! j) of
                 None \<Rightarrow> ?m2 ! i ! j
               | Some n \<Rightarrow>
                   if is_excluded ex (hex_digits ! i, hex_digits ! j) \<or> below_threshold thr n
                   then ?m2 ! i ! j else real n)"
      by blast
    have run: "fill_matrix ex thr (kv # kvs) m = Inr m'"
      using False m'(1) p(1) q(1) by (simp add: kv)
    have "m' ! i ! j =
              (case map_of (kv # kvs) (hex_digits ! i, hex_digits ! j) of
                 None \<Rightarrow> m ! i ! j
               | Some n \<Rightarrow>
                   if is_excluded ex (hex_digits ! i, hex_digits ! j) \<or> below_threshold thr n
                   then m ! i ! j else real n)" if ij: "i < 16" "j < 16" for i j
    proof (cases "i = p \<and> j = q")
      case True
      with cells [OF ij] fresh p q False
        matrix_set_nth [OF Cons.prems(3) p(2) q(2) ij, of "real n"]
      show ?thesis by (auto simp: kv)
    next
      case False
      with key [OF ij] have ne: "(hex_digits ! i, hex_digits ! j) \<noteq> (a, b)" by simp
      from False matrix_set_nth [OF Cons.prems(3) p(2) q(2) ij, of "real n"]
      have "?m2 ! i ! j = m ! i ! j" by auto
      moreover from ne have "map_of (kv # kvs) (hex_digits ! i, hex_digits ! j) =
          map_of kvs (hex_digits ! i, hex_digits ! j)"
        by (auto simp: kv)
      ultimately show ?thesis using cells [OF ij] by (simp only:)
    qed
    with run m'(2) show ?thesis by blast
  qed
qed

subsection \<open>The sum of the cells\<close>

lemma sum_list_concat_rows: "sum_list (concat (xss :: real list list)) = sum_list (map sum_list xss)"
  by (induction xss) simp_all

lemma grid_sum_cells:
  assumes "dims16 m"
  shows "grid_sum m = (\<Sum>i<16. \<Sum>j<16. m ! i ! j)"
proof -
  have "grid_sum m = sum_list (map sum_list m)"
    by (simp add: grid_sum_def sum_list_concat_rows)
  also have "\<dots> = (\<Sum>i = 0..<length m. sum_list (m ! i))"
    by (simp add: sum_list_sum_nth)
  also have "\<dots> = (\<Sum>i<16. sum_list (m ! i))"
    using assms by (simp add: dims16_def atLeast0LessThan)
  also have "\<dots> = (\<Sum>i<16. \<Sum>j<16. m ! i ! j)"
  proof (rule sum.cong)
    fix i :: nat
    assume "i \<in> {..<16}"
    then have "length (m ! i) = 16"
      using assms by (simp add: dims16_row)
    then show "sum_list (m ! i) = (\<Sum>j<16. m ! i ! j)"
      by (simp add: sum_list_sum_nth atLeast0LessThan)
  qed simp
  finally show ?thesis .
qed

lemma delta_sum16:
  fixes p q :: nat
  assumes "p < 16" "q < 16"
  shows "(\<Sum>i<16. \<Sum>j<16. if i = p \<and> j = q then 1 else 0) = (1::nat)"
proof -
  have "(\<Sum>j<16. if i = p \<and> j = q then 1 else 0) = (if i = p then 1 else (0::nat))" for i :: nat
    using assms(2) by (cases "i = p") simp_all
  then show ?thesis using assms(1) by simp
qed

lemma count_windows_sum:
  assumes "set ws \<subseteq> set hex_digits \<times> set hex_digits"
  shows "(\<Sum>i<16. \<Sum>j<16. count_list ws (hex_digits ! i, hex_digits ! j)) = length ws"
  using assms
proof (induction ws)
  case Nil
  show ?case by simp
next
  case (Cons w ws)
  obtain a b where w: "w = (a, b)" by (cases w)
  from Cons.prems have ab: "a \<in> set hex_digits" "b \<in> set hex_digits"
    by (simp_all add: w)
  obtain p where p: "p < 16" "hex_digits ! p = a"
    using ab(1) by (auto simp: in_set_conv_nth length_hex_digits)
  obtain q where q: "q < 16" "hex_digits ! q = b"
    using ab(2) by (auto simp: in_set_conv_nth length_hex_digits)
  have step: "count_list (w # ws) (hex_digits ! i, hex_digits ! j) =
      count_list ws (hex_digits ! i, hex_digits ! j) + (if i = p \<and> j = q then 1 else 0)"
    if "i < 16" "j < 16" for i j
    using that p q hex_digits_inj by (auto simp: w)
  have "(\<Sum>i<16. \<Sum>j<16. count_list (w # ws) (hex_digits ! i, hex_digits ! j)) =
      (\<Sum>i<16. \<Sum>j<16. count_list ws (hex_digits ! i, hex_digits ! j)
         + (if i = p \<and> j = q then 1 else 0))"
    by (intro sum.cong refl step) simp_all
  also have "\<dots> = (\<Sum>i<16. \<Sum>j<16. count_list ws (hex_digits ! i, hex_digits ! j))
      + (\<Sum>i<16. \<Sum>j<16. if i = p \<and> j = q then 1 else 0)"
    by (simp add: sum.distrib)
  also have "\<dots> = length ws + 1"
    using Cons.IH Cons.prems by (simp add: delta_sum16 [OF p(1) q(1)])
  finally show ?case by simp
qed

subsection \<open>The matrix before scaling\<close>

lemma counter_get_Some: "map_of c k = Some n \<Longrightarrow> counter_get c k = n"
  by (simp add: counter_get_def)

lemma counter_get_None: "map_of c k = None \<Longrightarrow> counter_get c k = 0"
  by (simp add: counter_get_def)

lemma Counter_Some_positive: "map_of (Counter xs) k = Some n \<Longrightarrow> 0 < n"
  using positive_Counter [of xs] by (auto simp: list_all_iff dest!: map_of_SomeD)

lemma count_digraphs_nonempty:
  "bs \<noteq> [] \<Longrightarrow> count_digraphs bs = Inr (Counter (windows2 (hex_string_of bs)))"
  by (cases bs) (simp_all add: count_digraphs_def sliding_window_view2_def length_hex_string_of)

lemma windows_hex: "set (windows2 (hex_string_of bs)) \<subseteq> set hex_digits \<times> set hex_digits"
  using set_windows2 [of "hex_string_of bs"] set_hex_string_of [of bs] by blast

text \<open>Lines 18 to 39 on a byte sequence that is not empty.\<close>

lemma prescale_matrix_cells:
  assumes "bs \<noteq> []"
  shows "\<exists>m. prescale_matrix bs ex thr = Inr (m, Counter (windows2 (hex_string_of bs))) \<and>
           dims16 m \<and>
           (\<forall>i<16. \<forall>j<16. m ! i ! j =
              (if is_excluded ex (hex_digits ! i, hex_digits ! j)
                  \<or> below_threshold thr
                       (count_list (windows2 (hex_string_of bs)) (hex_digits ! i, hex_digits ! j))
               then 0
               else real (count_list (windows2 (hex_string_of bs)) (hex_digits ! i, hex_digits ! j))))"
proof -
  let ?ws = "windows2 (hex_string_of bs)"
  let ?c = "Counter ?ws"
  have keys: "set (map fst ?c) \<subseteq> set hex_digits \<times> set hex_digits"
    unfolding keys_Counter by (rule windows_hex)
  from fill_matrix_cells [OF distinct_Counter keys dims16_zeros16, of ex thr]
  obtain m where m: "fill_matrix ex thr ?c zeros16 = Inr m" "dims16 m"
    and cells: "\<And>i j. i < 16 \<Longrightarrow> j < 16 \<Longrightarrow> m ! i ! j =
              (case map_of ?c (hex_digits ! i, hex_digits ! j) of
                 None \<Rightarrow> zeros16 ! i ! j
               | Some n \<Rightarrow>
                   if is_excluded ex (hex_digits ! i, hex_digits ! j) \<or> below_threshold thr n
                   then zeros16 ! i ! j else real n)"
    by blast
  have run: "prescale_matrix bs ex thr = Inr (m, ?c)"
    using assms m(1) by (simp add: prescale_matrix_def count_digraphs_nonempty)
  have "m ! i ! j =
      (if is_excluded ex (hex_digits ! i, hex_digits ! j)
          \<or> below_threshold thr (count_list ?ws (hex_digits ! i, hex_digits ! j))
       then 0 else real (count_list ?ws (hex_digits ! i, hex_digits ! j)))"
    if ij: "i < 16" "j < 16" for i j
  proof (cases "map_of ?c (hex_digits ! i, hex_digits ! j)")
    case None
    then have "count_list ?ws (hex_digits ! i, hex_digits ! j) = 0"
      using counter_get_None [OF None] by (simp add: counter_get_Counter)
    with None cells [OF ij] show ?thesis by (simp add: zeros16_nth ij)
  next
    case (Some n)
    then have "count_list ?ws (hex_digits ! i, hex_digits ! j) = n"
      using counter_get_Some [OF Some] by (simp add: counter_get_Counter)
    with Some cells [OF ij] show ?thesis by (simp add: zeros16_nth ij)
  qed
  with run m(2) show ?thesis by blast
qed

subsection \<open>Scaling, drawing and the returned value\<close>

lemma dims16_concat: "dims16 m \<Longrightarrow> concat m \<noteq> []"
  by (cases m) (auto simp: dims16_def)

lemma matrix_max_dims16:
  assumes "dims16 m"
  shows "matrix_max m = Inr (Max (set (concat m)))"
proof (cases "concat m")
  case Nil
  with dims16_concat [OF assms] show ?thesis by simp
next
  case (Cons x xs)
  have "fold max xs x = Max (set (x # xs))"
    by (rule Max.set_eq_fold [symmetric])
  with Cons show ?thesis by (simp add: matrix_max_def)
qed

lemma dims16_map: "dims16 m \<Longrightarrow> dims16 (map (map f) m)"
  by (simp add: dims16_def list_all_iff)

lemma map_map_nth:
  "dims16 m \<Longrightarrow> i < 16 \<Longrightarrow> j < 16 \<Longrightarrow> map (map f) m ! i ! j = f (m ! i ! j)"
  by (simp add: dims16_def list_all_length)

lemma apply_log_scale_dims16:
  assumes "dims16 m"
  shows "\<exists>m'. apply_log_scale ls m = Inr m' \<and> dims16 m' \<and>
           (if ls \<and> 0 < Max (set (concat m))
            then \<forall>i<16. \<forall>j<16. m' ! i ! j = (if 0 < m ! i ! j then ln (1 + m ! i ! j) else 0)
            else m' = m)"
  using assms
  by (simp add: apply_log_scale_def matrix_max_dims16 dims16_map map_map_nth log1p_def)

lemma render_dims16:
  "dims16 m \<Longrightarrow> \<exists>fig. render m ls ex v thr = Inr fig \<and> im_vmax fig = v"
  by (simp add: render_def matrix_max_dims16 Let_def)

lemma returned_analyze_digraphs:
  "returned (analyze_digraphs bs ls ex v thr) =
     (case prescale_matrix bs ex thr of
        Inl e \<Rightarrow> Inl e
      | Inr (m0, c) \<Rightarrow> (case apply_log_scale ls m0 of Inl e \<Rightarrow> Inl e | Inr m \<Rightarrow> Inr (m, c)))"
proof (cases "bs = []")
  case True
  then show ?thesis
    by (simp add: analyze_digraphs_def prescale_matrix_def count_digraphs_def
        sliding_window_view2_def hex_string_of_def returned_def)
next
  case False
  from prescale_matrix_cells [OF False, of ex thr]
  obtain m0 where m0: "prescale_matrix bs ex thr = Inr (m0, Counter (windows2 (hex_string_of bs)))"
    "dims16 m0"
    by blast
  from apply_log_scale_dims16 [OF m0(2), of ls]
  obtain m where m: "apply_log_scale ls m0 = Inr m" "dims16 m"
    by blast
  from render_dims16 [OF m(2), of ls ex v thr]
  obtain fig where "render m ls ex v thr = Inr fig"
    by blast
  with m0(1) m(1) show ?thesis
    by (simp add: analyze_digraphs_def returned_def)
qed

lemma returned_unscaled:
  "returned (analyze_digraphs bs False ex v thr) = prescale_matrix bs ex thr"
  by (simp add: returned_analyze_digraphs apply_log_scale_def split: sum.splits)

lemma is_excluded_iff: "is_excluded ex d = (\<exists>l. ex = Some l \<and> d \<in> set l)"
  by (cases ex) (auto simp: is_excluded_def)

lemma below_threshold_iff: "below_threshold thr n = (\<exists>t. thr = Some t \<and> int n < t)"
  by (cases thr) (auto simp: below_threshold_def)

lemma fill_matrix_no_threshold:
  "t \<le> 0 \<Longrightarrow> fill_matrix ex (Some t) kvs m = fill_matrix ex None kvs m"
  by (induction ex "Some t" kvs m rule: fill_matrix.induct)
    (auto simp: below_threshold_def split: sum.splits)

lemma prescale_matrix_no_threshold:
  "t \<le> 0 \<Longrightarrow> prescale_matrix bs ex (Some t) = prescale_matrix bs ex None"
  by (cases "count_digraphs bs") (simp_all add: prescale_matrix_def fill_matrix_no_threshold)

lemma cell_le_Max:
  assumes "dims16 m" "i < 16" "j < 16"
  shows "m ! i ! j \<le> Max (set (concat m))"
proof -
  have "m ! i \<in> set m"
    using assms by (simp add: dims16_def)
  moreover have "m ! i ! j \<in> set (m ! i)"
    using assms by (simp add: dims16_row)
  ultimately have "m ! i ! j \<in> set (concat m)"
    by auto
  then show ?thesis by simp
qed

text \<open>The returned value on a byte sequence that is not empty, cell by cell.\<close>

lemma returned_cells:
  assumes "bs \<noteq> []"
  shows "\<exists>m. returned (analyze_digraphs bs ls ex v thr)
             = Inr (m, Counter (windows2 (hex_string_of bs))) \<and>
           (\<forall>i<16. \<forall>j<16. m ! i ! j =
              (if is_excluded ex (hex_digits ! i, hex_digits ! j)
                  \<or> below_threshold thr
                       (count_list (windows2 (hex_string_of bs)) (hex_digits ! i, hex_digits ! j))
               then 0
               else if ls
               then ln (1 + real (count_list (windows2 (hex_string_of bs))
                                   (hex_digits ! i, hex_digits ! j)))
               else real (count_list (windows2 (hex_string_of bs))
                           (hex_digits ! i, hex_digits ! j))))"
proof -
  let ?ws = "windows2 (hex_string_of bs)"
  let ?n = "\<lambda>i j. count_list ?ws (hex_digits ! i, hex_digits ! j)"
  let ?skip = "\<lambda>i j. is_excluded ex (hex_digits ! i, hex_digits ! j) \<or> below_threshold thr (?n i j)"
  from prescale_matrix_cells [OF assms, of ex thr]
  obtain m0 where run0: "prescale_matrix bs ex thr = Inr (m0, Counter ?ws)"
    and dims0: "dims16 m0"
    and cells0: "\<And>i j. i < 16 \<Longrightarrow> j < 16 \<Longrightarrow>
        m0 ! i ! j = (if ?skip i j then 0 else real (?n i j))"
    by blast
  from apply_log_scale_dims16 [OF dims0, of ls]
  obtain m where run: "apply_log_scale ls m0 = Inr m"
    and scaled: "if ls \<and> 0 < Max (set (concat m0))
        then \<forall>i<16. \<forall>j<16. m ! i ! j = (if 0 < m0 ! i ! j then ln (1 + m0 ! i ! j) else 0)
        else m = m0"
    by blast
  have ret: "returned (analyze_digraphs bs ls ex v thr) = Inr (m, Counter ?ws)"
    by (simp add: returned_analyze_digraphs run0 run)
  have "m ! i ! j =
      (if ?skip i j then 0 else if ls then ln (1 + real (?n i j)) else real (?n i j))"
    if ij: "i < 16" "j < 16" for i j
  proof (cases "ls \<and> 0 < Max (set (concat m0))")
    case True
    with scaled ij have "m ! i ! j = (if 0 < m0 ! i ! j then ln (1 + m0 ! i ! j) else 0)"
      by simp
    with True show ?thesis by (simp add: cells0 [OF ij])
  next
    case False
    with scaled have same: "m = m0" by simp
    show ?thesis
    proof (cases ls)
      case True
      with False have "Max (set (concat m0)) \<le> 0" by simp
      with cell_le_Max [OF dims0 ij] have "m0 ! i ! j \<le> 0" by simp
      then have "\<not> ?skip i j \<Longrightarrow> ?n i j = 0"
        by (simp add: cells0 [OF ij])
      then show ?thesis using True same by (auto simp: cells0 [OF ij])
    next
      case False
      then show ?thesis by (simp add: same cells0 [OF ij])
    qed
  qed
  with ret show ?thesis by blast
qed

subsection \<open>Runs on concrete inputs\<close>

lemmas count_simps =
  hex_string_of_def format_02X_def format_X.simps hex_digits_def count_digraphs_def
  sliding_window_view2_def Counter_def

lemma str_index_hex_digits:
  "str_index hex_digits (CHR ''0'') = Inr 0"
  "str_index hex_digits (CHR ''A'') = Inr 10"
  "str_index hex_digits (CHR ''B'') = Inr 11"
  "str_index hex_digits (CHR ''C'') = Inr 12"
  "str_index hex_digits (CHR ''D'') = Inr 13"
  by (simp_all add: hex_digits_def)

lemmas fill_simps =
  prescale_matrix_def is_excluded_def below_threshold_def str_index_hex_digits

lemma count_digraphs_AB: "count_digraphs [0xAB] = Inr [((CHR ''A'', CHR ''B''), 1)]"
  by (simp add: count_simps)

lemma count_digraphs_0000: "count_digraphs [0, 0] = Inr [((CHR ''0'', CHR ''0''), 3)]"
  by (simp add: count_simps)

lemma prescale_matrix_AB:
  "prescale_matrix [0xAB] None None
     = Inr (matrix_set zeros16 10 11 1, [((CHR ''A'', CHR ''B''), 1)])"
  by (simp add: fill_simps count_digraphs_AB)

lemma prescale_matrix_0000:
  "prescale_matrix [0, 0] (Some [(CHR ''0'', CHR ''0'')]) None
     = Inr (zeros16, [((CHR ''0'', CHR ''0''), 3)])"
  by (simp add: fill_simps count_digraphs_0000)

lemma fill_matrix_AB_CD:
  "fill_matrix None (Some 5) [((CHR ''A'', CHR ''B''), 4), ((CHR ''C'', CHR ''D''), 10)] zeros16
     = Inr (matrix_set zeros16 12 13 10)"
  by (simp add: fill_simps)

lemma matrix_set_zeros16_nth:
  "p < 16 \<Longrightarrow> q < 16 \<Longrightarrow> i < 16 \<Longrightarrow> j < 16 \<Longrightarrow>
   matrix_set zeros16 p q v ! i ! j = (if i = p \<and> j = q then v else 0)"
  by (simp add: matrix_set_nth [OF dims16_zeros16] zeros16_nth)

lemma hex_string_of_nibbles:
  "hex_string_of bs =
     concat (map (\<lambda>b. [hex_digits ! (unat b div 16), hex_digits ! (unat b mod 16)]) bs)"
  by (simp add: hex_string_of_def format_02X_byte unat_byte_less)

lemma count_digraphs_ABABCD:
  "count_digraphs [0xAB, 0xAB, 0xCD] =
     Inr [((CHR ''A'', CHR ''B''), 2), ((CHR ''B'', CHR ''A''), 1),
          ((CHR ''B'', CHR ''C''), 1), ((CHR ''C'', CHR ''D''), 1)]"
  by (simp add: count_simps)

lemma prescale_matrix_ABABCD:
  "prescale_matrix [0xAB, 0xAB, 0xCD] None (Some 2) =
     Inr (matrix_set zeros16 10 11 2,
          [((CHR ''A'', CHR ''B''), 2), ((CHR ''B'', CHR ''A''), 1),
           ((CHR ''B'', CHR ''C''), 1), ((CHR ''C'', CHR ''D''), 1)])"
  by (simp add: fill_simps count_digraphs_ABABCD)

lemma analyze_digraphs_figure:
  assumes "bs \<noteq> []"
  shows "\<exists>r fig. analyze_digraphs bs ls ex v thr = Inr (r, fig) \<and> im_vmax fig = v"
proof -
  from prescale_matrix_cells [OF assms, of ex thr]
  obtain m0 c where m0: "prescale_matrix bs ex thr = Inr (m0, c)" "dims16 m0"
    by blast
  from apply_log_scale_dims16 [OF m0(2), of ls]
  obtain m where m: "apply_log_scale ls m0 = Inr m" "dims16 m"
    by blast
  from render_dims16 [OF m(2), of ls ex v thr]
  obtain fig where "render m ls ex v thr = Inr fig" "im_vmax fig = v"
    by blast
  with m0(1) m(1) show ?thesis
    by (simp add: analyze_digraphs_def)
qed

section \<open>The claims\<close>

subsection \<open>The empty byte sequence\<close>

text \<open>
  C1 (the claim fails on the code): for an empty byte sequence the hex string is empty, the
  array handed to \<open>sliding_window_view\<close> has no element, and the window of length 2 is
  refused with ValueError. The function raises for every configuration, before a matrix or
  a count mapping exists; it does not return an all-zero grid and an empty mapping.
\<close>

theorem analyze_digraphs_empty_raises:
  "analyze_digraphs [] log_scale exclude_digraphs vmax min_threshold = Inl WindowTooLarge"
  by (simp add: analyze_digraphs_def prescale_matrix_def count_digraphs_def
      sliding_window_view2_def hex_string_of_def)

subsection \<open>The sum of the unfiltered grid\<close>

text \<open>
  C2: for a byte sequence of length N > 0, with no exclusion list and no threshold, the
  function returns, and the cells of the matrix before scaling (which is the matrix
  returned when \<open>log_scale\<close> is false) add up to 2 N - 1, the number of windows of
  length 2 over the hex string.
\<close>

theorem grid_sum_unfiltered:
  assumes "binary_data \<noteq> []"
  shows "\<exists>m c. prescale_matrix binary_data None None = Inr (m, c) \<and>
           returned (analyze_digraphs binary_data False None vmax None) = Inr (m, c) \<and>
           grid_sum m = 2 * real (length binary_data) - 1"
proof -
  let ?ws = "windows2 (hex_string_of binary_data)"
  from prescale_matrix_cells [OF assms, of None None]
  obtain m where run: "prescale_matrix binary_data None None = Inr (m, Counter ?ws)"
    and dims: "dims16 m"
    and cells: "\<And>i j. i < 16 \<Longrightarrow> j < 16 \<Longrightarrow>
        m ! i ! j = real (count_list ?ws (hex_digits ! i, hex_digits ! j))"
    by (auto simp: is_excluded_def below_threshold_def)
  have "grid_sum m = (\<Sum>i<16. \<Sum>j<16. m ! i ! j)"
    using dims by (rule grid_sum_cells)
  also have "\<dots> = (\<Sum>i<16. \<Sum>j<16. real (count_list ?ws (hex_digits ! i, hex_digits ! j)))"
    by (intro sum.cong refl cells) simp_all
  also have "\<dots> = real (\<Sum>i<16. \<Sum>j<16. count_list ?ws (hex_digits ! i, hex_digits ! j))"
    by simp
  also have "\<dots> = real (length ?ws)"
    by (simp only: count_windows_sum [OF windows_hex])
  also have "\<dots> = 2 * real (length binary_data) - 1"
    using assms by (cases binary_data) (simp_all add: length_windows2 length_hex_string_of)
  finally have "grid_sum m = 2 * real (length binary_data) - 1" .
  with run show ?thesis by (simp add: returned_unscaled)
qed

theorem grid_sum_unfiltered_witness:
  "\<exists>m c. prescale_matrix [0xAB, 0xAB, 0xCD] None None = Inr (m, c) \<and>
     returned (analyze_digraphs [0xAB, 0xAB, 0xCD] False None None None) = Inr (m, c) \<and>
     grid_sum m = 5"
  using grid_sum_unfiltered [of "[0xAB, 0xAB, 0xCD]" None]
  by simp

subsection \<open>Every cell before scaling\<close>

text \<open>
  C3: for a byte sequence that is not empty and any configuration, lines 18 to 39 return,
  and the cell at row i and column j of the matrix before log scaling is 0 when the
  digraph of the i-th and j-th hex digit is in \<open>exclude_digraphs\<close>, has a count below
  \<open>min_threshold\<close> or never occurred, and is otherwise what the returned count mapping
  holds for that digraph. (For the empty byte sequence no matrix exists: see C1.)
\<close>

theorem prescale_cell_value:
  assumes "binary_data \<noteq> []" and "i < 16" and "j < 16"
  shows "\<exists>m c. prescale_matrix binary_data exclude_digraphs min_threshold = Inr (m, c) \<and>
           returned (analyze_digraphs binary_data False exclude_digraphs vmax min_threshold)
             = Inr (m, c) \<and>
           m ! i ! j =
             (if (\<exists>l. exclude_digraphs = Some l \<and> (hex_digits ! i, hex_digits ! j) \<in> set l)
                 \<or> (\<exists>t. min_threshold = Some t
                        \<and> int (counter_get c (hex_digits ! i, hex_digits ! j)) < t)
                 \<or> counter_get c (hex_digits ! i, hex_digits ! j) = 0
              then 0
              else real (counter_get c (hex_digits ! i, hex_digits ! j)))"
proof -
  let ?ws = "windows2 (hex_string_of binary_data)"
  from prescale_matrix_cells [OF assms(1), of exclude_digraphs min_threshold]
  obtain m where run: "prescale_matrix binary_data exclude_digraphs min_threshold
      = Inr (m, Counter ?ws)"
    and cells: "\<And>i j. i < 16 \<Longrightarrow> j < 16 \<Longrightarrow> m ! i ! j =
        (if is_excluded exclude_digraphs (hex_digits ! i, hex_digits ! j)
            \<or> below_threshold min_threshold (count_list ?ws (hex_digits ! i, hex_digits ! j))
         then 0 else real (count_list ?ws (hex_digits ! i, hex_digits ! j)))"
    by blast
  have "m ! i ! j =
      (if (\<exists>l. exclude_digraphs = Some l \<and> (hex_digits ! i, hex_digits ! j) \<in> set l)
          \<or> (\<exists>t. min_threshold = Some t
                 \<and> int (counter_get (Counter ?ws) (hex_digits ! i, hex_digits ! j)) < t)
          \<or> counter_get (Counter ?ws) (hex_digits ! i, hex_digits ! j) = 0
       then 0
       else real (counter_get (Counter ?ws) (hex_digits ! i, hex_digits ! j)))"
    using cells [OF assms(2,3)]
    by (simp add: counter_get_Counter is_excluded_iff below_threshold_iff)
  with run show ?thesis by (simp add: returned_unscaled)
qed

theorem prescale_cell_value_witness:
  "\<exists>m c. prescale_matrix [0xAB] None None = Inr (m, c) \<and>
     returned (analyze_digraphs [0xAB] False None None None) = Inr (m, c) \<and>
     m ! 10 ! 11 = 1 \<and> counter_get c (CHR ''A'', CHR ''B'') = 1"
proof -
  have d: "hex_digits ! 10 = CHR ''A''" "hex_digits ! 11 = CHR ''B''"
    by (simp_all add: hex_digits_def)
  from prescale_cell_value [of "[0xAB]" 10 11 None None None]
  show ?thesis
    by (auto simp: d counter_get_def prescale_matrix_AB)
qed

subsection \<open>The text of an annotation\<close>

text \<open>
  Over the reals the round trip loses nothing: with the exact \<open>exp v - 1\<close> in the place of
  \<open>np.expm1\<close> and the exact cell \<open>ln (1 + c)\<close>, the text is the count.
\<close>

lemma annotation_value_exact:
  "annotation_value (\<lambda>v. exp v - 1) True (ln (1 + real c)) = int c"
  by (simp add: annotation_value_def py_int_def)

text \<open>
  C4 (the claim fails on the code): the text is obtained by truncation, not by rounding to
  the nearest integer. Whenever the double that \<open>np.expm1\<close> returns for a cell is below
  the count c, by however little, the text shows a number less than c, where rounding
  would show c. The witness takes the count 15 (eight zero bytes): the cell holds the
  double 2.772588722239781, for which the C library's \<open>expm1\<close> returns 15 - 2^-49, and
  the text is 14.
\<close>

theorem annotation_value_truncates:
  assumes "0 \<le> np_expm1 v" and "np_expm1 v < real c"
  shows "annotation_value np_expm1 True v < int c"
  using assms by (simp add: annotation_value_def py_int_def floor_less_iff)

theorem annotation_value_truncates_witness:
  "annotation_value (\<lambda>v. 15 - 1 / 2 ^ 49) True (2772588722239781 / 10 ^ 15) = 14"
proof -
  have "annotation_value (\<lambda>v. 15 - 1 / 2 ^ 49) True (2772588722239781 / 10 ^ 15) < int 15"
    by (rule annotation_value_truncates) simp_all
  moreover have "14 \<le> annotation_value (\<lambda>v. 15 - 1 / 2 ^ 49) True (2772588722239781 / 10 ^ 15)"
    by (simp add: annotation_value_def py_int_def le_floor_iff)
  ultimately show ?thesis by simp
qed

subsection \<open>Log scaling\<close>

text \<open>
  C5: if \<open>log_scale\<close> is true and the maximum of the matrix before scaling is greater
  than 0, every cell v > 0 becomes ln (1 + v) and every cell 0 stays 0; if \<open>log_scale\<close>
  is false or the maximum is 0, the returned matrix is the matrix before scaling.
\<close>

theorem log_scaling_cells:
  assumes "binary_data \<noteq> []" and "i < 16" and "j < 16"
  shows "\<exists>m0 m c. prescale_matrix binary_data exclude_digraphs min_threshold = Inr (m0, c) \<and>
           returned (analyze_digraphs binary_data log_scale exclude_digraphs vmax min_threshold)
             = Inr (m, c) \<and>
           (if log_scale \<and> 0 < Max (set (concat m0))
            then (0 < m0 ! i ! j \<longrightarrow> m ! i ! j = ln (1 + m0 ! i ! j))
               \<and> (m0 ! i ! j = 0 \<longrightarrow> m ! i ! j = 0)
            else m = m0)"
proof -
  from prescale_matrix_cells [OF assms(1), of exclude_digraphs min_threshold]
  obtain m0 c where run0: "prescale_matrix binary_data exclude_digraphs min_threshold = Inr (m0, c)"
    and dims0: "dims16 m0"
    by blast
  from apply_log_scale_dims16 [OF dims0, of log_scale]
  obtain m where run: "apply_log_scale log_scale m0 = Inr m"
    and scaled: "if log_scale \<and> 0 < Max (set (concat m0))
        then \<forall>i<16. \<forall>j<16. m ! i ! j = (if 0 < m0 ! i ! j then ln (1 + m0 ! i ! j) else 0)
        else m = m0"
    by blast
  have "returned (analyze_digraphs binary_data log_scale exclude_digraphs vmax min_threshold)
      = Inr (m, c)"
    by (simp add: returned_analyze_digraphs run0 run)
  moreover have "if log_scale \<and> 0 < Max (set (concat m0))
            then (0 < m0 ! i ! j \<longrightarrow> m ! i ! j = ln (1 + m0 ! i ! j))
               \<and> (m0 ! i ! j = 0 \<longrightarrow> m ! i ! j = 0)
            else m = m0"
    using scaled assms(2,3) by (simp split: if_splits)
  ultimately show ?thesis using run0 by blast
qed

theorem log_scaling_cells_witness:
  "\<exists>m0 m c. prescale_matrix [0xAB] None None = Inr (m0, c) \<and>
     returned (analyze_digraphs [0xAB] True None None None) = Inr (m, c) \<and>
     m0 ! 10 ! 11 = 1 \<and> m ! 10 ! 11 = ln 2"
proof -
  let ?m0 = "matrix_set zeros16 10 11 1"
  have ne: "[0xAB :: byte] \<noteq> []" by simp
  have cell: "?m0 ! 10 ! 11 = 1"
    by (simp add: matrix_set_zeros16_nth)
  have "dims16 ?m0"
    by (simp add: dims16_matrix_set dims16_zeros16)
  from cell_le_Max [OF this, of 10 11] cell have pos: "0 < Max (set (concat ?m0))"
    by simp
  from log_scaling_cells [OF ne, of 10 11 None None True None]
  show ?thesis
    using pos cell by (auto simp: prescale_matrix_AB)
qed

subsection \<open>The hex encoding\<close>

text \<open>
  C6: every byte becomes two uppercase hex characters, the high nibble first. The byte
  sequence of the one byte 0xAB gives the hex string "AB" and the single digraph (A, B) with count
  1; the matrix filled by lines 37 to 39 (returned as it is when \<open>log_scale\<close> is false)
  has 1 in cell [10][11] and 0 in every other cell.
\<close>

theorem hex_encoding_high_nibble_first:
  "hex_string_of binary_data =
     concat (map (\<lambda>b. [''0123456789ABCDEF'' ! (unat b div 16),
                        ''0123456789ABCDEF'' ! (unat b mod 16)]) binary_data)
   \<and> hex_string_of [0xAB] = ''AB''
   \<and> (\<exists>m. prescale_matrix [0xAB] None None = Inr (m, [((CHR ''A'', CHR ''B''), 1)])
        \<and> returned (analyze_digraphs [0xAB] False None vmax None)
            = Inr (m, [((CHR ''A'', CHR ''B''), 1)])
        \<and> (\<forall>i<16. \<forall>j<16. m ! i ! j = (if i = 10 \<and> j = 11 then 1 else 0)))"
proof -
  have "hex_string_of binary_data =
     concat (map (\<lambda>b. [''0123456789ABCDEF'' ! (unat b div 16),
                        ''0123456789ABCDEF'' ! (unat b mod 16)]) binary_data)"
    using hex_string_of_nibbles [of binary_data] by (simp only: hex_digits_def)
  moreover have "hex_string_of [0xAB] = ''AB''"
    by (simp add: count_simps)
  moreover have "\<forall>i<16. \<forall>j<16.
      matrix_set zeros16 10 11 1 ! i ! j = (if i = 10 \<and> j = 11 then 1 else 0)"
    by (simp add: matrix_set_zeros16_nth)
  ultimately show ?thesis
    by (simp add: prescale_matrix_AB returned_unscaled)
qed

theorem hex_encoding_high_nibble_first_witness:
  "hex_string_of [0x0F, 0xA0] = ''0FA0''
   \<and> (\<exists>m. prescale_matrix [0xAB] None None = Inr (m, [((CHR ''A'', CHR ''B''), 1)])
        \<and> m ! 10 ! 11 = 1 \<and> m ! 11 ! 10 = 0 \<and> m ! 0 ! 0 = 0)"
  using hex_encoding_high_nibble_first [of "[0x0F, 0xA0]" None]
  by auto

subsection \<open>Excluded digraphs\<close>

text \<open>
  C7: a digraph in \<open>exclude_digraphs\<close> has 0 in its cell of the returned matrix, with or
  without log scaling, and the returned count mapping holds its full count: the mapping
  is the one returned without any exclusion. The witness is the spec's example, the bytes
  0x00 0x00 with (0, 0) excluded: cell [0][0] is 0 and the mapping has (0, 0) at 3.
\<close>

theorem excluded_digraph_zero_but_counted:
  assumes "binary_data \<noteq> []" and "i < 16" and "j < 16"
    and "exclude_digraphs = Some l" and "(hex_digits ! i, hex_digits ! j) \<in> set l"
  shows "\<exists>m c. returned (analyze_digraphs binary_data log_scale exclude_digraphs vmax min_threshold)
             = Inr (m, c) \<and>
           m ! i ! j = 0 \<and>
           counter_get c (hex_digits ! i, hex_digits ! j)
             = count_list (windows2 (hex_string_of binary_data)) (hex_digits ! i, hex_digits ! j) \<and>
           (\<exists>m'. returned (analyze_digraphs binary_data log_scale None vmax min_threshold)
                   = Inr (m', c))"
proof -
  let ?c = "Counter (windows2 (hex_string_of binary_data))"
  have ex: "is_excluded exclude_digraphs (hex_digits ! i, hex_digits ! j)"
    using assms(4,5) by (auto simp: is_excluded_iff)
  from returned_cells [OF assms(1), of log_scale exclude_digraphs vmax min_threshold]
  obtain m where
    "returned (analyze_digraphs binary_data log_scale exclude_digraphs vmax min_threshold)
       = Inr (m, ?c)"
    and "m ! i ! j = 0"
    using assms(2,3) ex by auto
  moreover from returned_cells [OF assms(1), of log_scale None vmax min_threshold]
  obtain m' where
    "returned (analyze_digraphs binary_data log_scale None vmax min_threshold) = Inr (m', ?c)"
    by blast
  ultimately show ?thesis
    by (auto simp: counter_get_Counter)
qed

theorem excluded_digraph_zero_but_counted_witness:
  "\<exists>m c. returned (analyze_digraphs [0, 0] False (Some [(CHR ''0'', CHR ''0'')]) None None)
            = Inr (m, c) \<and>
     m ! 0 ! 0 = 0 \<and> counter_get c (CHR ''0'', CHR ''0'') = 3 \<and>
     c = [((CHR ''0'', CHR ''0''), 3)]"
proof -
  have ne: "[0, 0 :: byte] \<noteq> []" by simp
  have d0: "hex_digits ! 0 = CHR ''0''"
    by (simp add: hex_digits_def)
  have mem: "(hex_digits ! 0, hex_digits ! 0) \<in> set [(CHR ''0'', CHR ''0'')]"
    by (simp add: d0)
  have n: "count_list (windows2 (hex_string_of [0, 0])) (CHR ''0'', CHR ''0'') = 3"
    by (simp add: count_simps)
  from excluded_digraph_zero_but_counted [OF ne _ _ refl mem, of False None None]
  show ?thesis
    by (auto simp: n d0 returned_unscaled prescale_matrix_0000)
qed

subsection \<open>The threshold\<close>

text \<open>
  C8: with \<open>min_threshold = t\<close>, the cell of a digraph that is not excluded is 0 when its
  count is less than t and otherwise its count (ln (1 + count) under log scaling); for a
  digraph that occurs, the cell is 0 exactly when the count is less than t. The returned
  count mapping is the one returned without a threshold. For the counts
  (A, B): 4 and (C, D): 10 and the threshold 5, the loop leaves 0 in the cell of (A, B) and
  puts 10 into the cell of (C, D), which log scaling turns into ln 11.
\<close>

theorem threshold_filtering:
  "(binary_data \<noteq> [] \<and> i < 16 \<and> j < 16
      \<and> \<not> is_excluded exclude_digraphs (hex_digits ! i, hex_digits ! j) \<longrightarrow>
    (\<exists>m c. returned (analyze_digraphs binary_data log_scale exclude_digraphs vmax (Some t))
              = Inr (m, c) \<and>
        m ! i ! j =
          (if int (counter_get c (hex_digits ! i, hex_digits ! j)) < t then 0
           else if log_scale then ln (1 + real (counter_get c (hex_digits ! i, hex_digits ! j)))
           else real (counter_get c (hex_digits ! i, hex_digits ! j))) \<and>
        (0 < counter_get c (hex_digits ! i, hex_digits ! j) \<longrightarrow>
           (m ! i ! j = 0) = (int (counter_get c (hex_digits ! i, hex_digits ! j)) < t)) \<and>
        (\<exists>m'. returned (analyze_digraphs binary_data log_scale exclude_digraphs vmax None)
                = Inr (m', c))))
   \<and> (\<exists>m m'. fill_matrix None (Some 5)
                 [((CHR ''A'', CHR ''B''), 4), ((CHR ''C'', CHR ''D''), 10)] zeros16 = Inr m \<and>
          m ! 10 ! 11 = 0 \<and> m ! 12 ! 13 = 10 \<and>
          apply_log_scale True m = Inr m' \<and>
          m' ! 10 ! 11 = 0 \<and> m' ! 12 ! 13 = ln 11)"
proof (intro conjI impI)
  assume a: "binary_data \<noteq> [] \<and> i < 16 \<and> j < 16
      \<and> \<not> is_excluded exclude_digraphs (hex_digits ! i, hex_digits ! j)"
  let ?ws = "windows2 (hex_string_of binary_data)"
  let ?n = "count_list ?ws (hex_digits ! i, hex_digits ! j)"
  from a have ne: "binary_data \<noteq> []" by simp
  from returned_cells [OF ne, of log_scale exclude_digraphs vmax "Some t"] a
  obtain m where ret:
    "returned (analyze_digraphs binary_data log_scale exclude_digraphs vmax (Some t))
       = Inr (m, Counter ?ws)"
    and cell: "m ! i ! j =
      (if int ?n < t then 0 else if log_scale then ln (1 + real ?n) else real ?n)"
    by (auto simp: below_threshold_iff)
  from returned_cells [OF ne, of log_scale exclude_digraphs vmax None]
  obtain m' where ret':
    "returned (analyze_digraphs binary_data log_scale exclude_digraphs vmax None)
       = Inr (m', Counter ?ws)"
    by blast
  have "0 < ln (1 + real ?n)" if "0 < ?n"
    using that by (simp add: ln_gt_zero)
  then have "(m ! i ! j = 0) = (int ?n < t)" if "0 < ?n"
    using that cell by auto
  with ret cell ret'
  show "\<exists>m c. returned (analyze_digraphs binary_data log_scale exclude_digraphs vmax (Some t))
              = Inr (m, c) \<and>
        m ! i ! j =
          (if int (counter_get c (hex_digits ! i, hex_digits ! j)) < t then 0
           else if log_scale then ln (1 + real (counter_get c (hex_digits ! i, hex_digits ! j)))
           else real (counter_get c (hex_digits ! i, hex_digits ! j))) \<and>
        (0 < counter_get c (hex_digits ! i, hex_digits ! j) \<longrightarrow>
           (m ! i ! j = 0) = (int (counter_get c (hex_digits ! i, hex_digits ! j)) < t)) \<and>
        (\<exists>m'. returned (analyze_digraphs binary_data log_scale exclude_digraphs vmax None)
                = Inr (m', c))"
    by (simp add: counter_get_Counter)
next
  let ?m = "matrix_set zeros16 12 13 10"
  have dims: "dims16 ?m"
    by (simp add: dims16_matrix_set dims16_zeros16)
  have c1: "?m ! 10 ! 11 = 0" and c2: "?m ! 12 ! 13 = 10"
    by (simp_all add: matrix_set_zeros16_nth)
  from cell_le_Max [OF dims, of 12 13] c2 have pos: "0 < Max (set (concat ?m))"
    by simp
  from apply_log_scale_dims16 [OF dims, of True] pos
  obtain m' where "apply_log_scale True ?m = Inr m'"
    and "\<forall>i<16. \<forall>j<16. m' ! i ! j = (if 0 < ?m ! i ! j then ln (1 + ?m ! i ! j) else 0)"
    by auto
  then have "apply_log_scale True ?m = Inr m' \<and> m' ! 10 ! 11 = 0 \<and> m' ! 12 ! 13 = ln 11"
    using c1 c2 by simp
  with c1 c2 fill_matrix_AB_CD
  show "\<exists>m m'. fill_matrix None (Some 5)
                 [((CHR ''A'', CHR ''B''), 4), ((CHR ''C'', CHR ''D''), 10)] zeros16 = Inr m \<and>
          m ! 10 ! 11 = 0 \<and> m ! 12 ! 13 = 10 \<and>
          apply_log_scale True m = Inr m' \<and>
          m' ! 10 ! 11 = 0 \<and> m' ! 12 ! 13 = ln 11"
    by blast
qed

theorem threshold_filtering_witness:
  "\<exists>m c. returned (analyze_digraphs [0xAB, 0xAB, 0xCD] False None None (Some 2)) = Inr (m, c) \<and>
     m ! 10 ! 11 = 2 \<and> m ! 11 ! 10 = 0 \<and>
     counter_get c (CHR ''A'', CHR ''B'') = 2 \<and> counter_get c (CHR ''B'', CHR ''A'') = 1"
proof -
  have d: "hex_digits ! 10 = CHR ''A''" "hex_digits ! 11 = CHR ''B''"
    by (simp_all add: hex_digits_def)
  from threshold_filtering [of "[0xAB, 0xAB, 0xCD]" 10 11 None False None 2]
    threshold_filtering [of "[0xAB, 0xAB, 0xCD]" 11 10 None False None 2]
  show ?thesis
    by (auto simp: d is_excluded_def counter_get_def returned_unscaled prescale_matrix_ABABCD)
qed

subsection \<open>A threshold that is zero or negative\<close>

text \<open>
  C9: for every \<open>min_threshold\<close> that is 0 or negative, the returned value (matrix and
  count mapping, or the error) is the one of the call without \<open>min_threshold\<close>, for
  every byte sequence and every other configuration.
\<close>

theorem nonpositive_threshold_no_filtering:
  assumes "t \<le> 0"
  shows "returned (analyze_digraphs binary_data log_scale exclude_digraphs vmax (Some t)) =
         returned (analyze_digraphs binary_data log_scale exclude_digraphs vmax None)"
  using assms
  by (simp add: returned_analyze_digraphs prescale_matrix_no_threshold)

theorem nonpositive_threshold_no_filtering_witness:
  "returned (analyze_digraphs [0xAB] False None None (Some (- 3))) =
   returned (analyze_digraphs [0xAB] False None None None) \<and>
   returned (analyze_digraphs [0xAB] False None None (Some (- 3))) =
     Inr (matrix_set zeros16 10 11 1, [((CHR ''A'', CHR ''B''), 1)])"
  using nonpositive_threshold_no_filtering [of "- 3" "[0xAB]" False None None]
  by (simp add: returned_unscaled prescale_matrix_AB)

subsection \<open>The colour ceiling\<close>

text \<open>
  C10: two calls that differ only in \<open>vmax\<close> return the same value: the same matrix and
  the same count mapping, or the same error. Only the figure records \<open>vmax\<close>.
\<close>

theorem vmax_not_in_returned_value:
  "returned (analyze_digraphs binary_data log_scale exclude_digraphs vmax min_threshold) =
   returned (analyze_digraphs binary_data log_scale exclude_digraphs vmax' min_threshold)"
  by (simp add: returned_analyze_digraphs)

theorem vmax_not_in_returned_value_witness:
  "returned (analyze_digraphs [0xAB] False None (Some 5) None) =
   returned (analyze_digraphs [0xAB] False None None None) \<and>
   analyze_digraphs [0xAB] False None (Some 5) None \<noteq> analyze_digraphs [0xAB] False None None None"
proof -
  have ne: "[0xAB :: byte] \<noteq> []" by simp
  from analyze_digraphs_figure [OF ne, of False None "Some 5" None]
    analyze_digraphs_figure [OF ne, of False None None None]
  have "analyze_digraphs [0xAB] False None (Some 5) None \<noteq> analyze_digraphs [0xAB] False None None None"
    by auto
  with vmax_not_in_returned_value [of "[0xAB]" False None "Some 5" None None]
  show ?thesis by simp
qed

end
